theory Spec2Isabelle
  imports Main
begin

section \<open>Go strings and the standard-library functions the program calls\<close>

text \<open>
  A Go \<^verbatim>\<open>string\<close> is a sequence of bytes, and \<^verbatim>\<open>len\<close>, slicing, \<^verbatim>\<open><\<close>,
  \<^verbatim>\<open>strings.HasPrefix\<close>, \<^verbatim>\<open>strings.Index\<close>, \<^verbatim>\<open>strings.Contains\<close> and
  \<^verbatim>\<open>strings.Join\<close> all work on bytes. They are modelled on \<^typ>\<open>string\<close>
  (a list of 8-bit characters) exactly.
\<close>

definition HasPrefix :: "string \<Rightarrow> string \<Rightarrow> bool" where
  "HasPrefix s pre = (length pre \<le> length s \<and> take (length pre) s = pre)"

text \<open>\<^verbatim>\<open>strings.Index\<close>: the byte index of the first occurrence, or \<open>-1\<close>.\<close>

fun Index :: "string \<Rightarrow> string \<Rightarrow> int" where
  "Index [] sub = (if sub = [] then 0 else - 1)"
| "Index (c # s) sub =
     (if HasPrefix (c # s) sub then 0
      else (let r = Index s sub in if r < 0 then - 1 else r + 1))"

definition Contains :: "string \<Rightarrow> string \<Rightarrow> bool" where
  "Contains s sub = (0 \<le> Index s sub)"

fun Join :: "string list \<Rightarrow> string \<Rightarrow> string" where
  "Join [] sep = []"
| "Join [a] sep = a"
| "Join (a # b # rest) sep = a @ sep @ Join (b # rest) sep"

text \<open>The comparison \<^verbatim>\<open><\<close> of two Go strings: lexicographic on the bytes.\<close>

fun strLess :: "string \<Rightarrow> string \<Rightarrow> bool" where
  "strLess [] [] = False"
| "strLess [] (y # ys) = True"
| "strLess (x # xs) [] = False"
| "strLess (x # xs) (y # ys) =
     ((of_char x :: nat) < of_char y \<or> (x = y \<and> strLess xs ys))"

text \<open>
  \<^verbatim>\<open>strings.ToLower\<close>, \<^verbatim>\<open>strings.EqualFold\<close>, \<^verbatim>\<open>strings.TrimSpace\<close> and the
  \<^verbatim>\<open>%q\<close> verb of \<^verbatim>\<open>fmt\<close> (\<^verbatim>\<open>strconv.Quote\<close>) depend on Go's Unicode tables, which
  are not part of the program. The program is modelled over any implementation of the
  four, passed as a record; nothing is assumed about them.
\<close>

record stdlib =
  ToLower :: "string \<Rightarrow> string"
  EqualFold :: "string \<Rightarrow> string \<Rightarrow> bool"
  TrimSpace :: "string \<Rightarrow> string"
  Quote :: "string \<Rightarrow> string"

subsection \<open>The four functions on 7-bit input\<close>

text \<open>
  On strings of ASCII bytes Go's functions are the following ones; this instance is
  used to run the program on ASCII inputs.
\<close>

definition lowerByte :: "char \<Rightarrow> char" where
  "lowerByte c =
     (if (65::nat) \<le> of_char c \<and> (of_char c :: nat) \<le> 90
      then char_of ((of_char c :: nat) + 32) else c)"

definition isSpaceByte :: "char \<Rightarrow> bool" where
  "isSpaceByte c = ((of_char c :: nat) \<in> {9, 10, 11, 12, 13, 32})"

definition hexDigit :: "nat \<Rightarrow> char" where
  "hexDigit n = (''0123456789abcdef'') ! (n mod 16)"

definition quoteByte :: "char \<Rightarrow> string" where
  "quoteByte c =
     (let n = (of_char c :: nat) in
      if n = 34 then [CHR 0x5C, CHR 0x22]
      else if n = 92 then [CHR 0x5C, CHR 0x5C]
      else if n = 7 then [CHR 0x5C, CHR ''a'']
      else if n = 8 then [CHR 0x5C, CHR ''b'']
      else if n = 12 then [CHR 0x5C, CHR ''f'']
      else if n = 10 then [CHR 0x5C, CHR ''n'']
      else if n = 13 then [CHR 0x5C, CHR ''r'']
      else if n = 9 then [CHR 0x5C, CHR ''t'']
      else if n = 11 then [CHR 0x5C, CHR ''v'']
      else if n < 32 \<or> 127 \<le> n then [CHR 0x5C, CHR ''x'', hexDigit (n div 16), hexDigit n]
      else [c])"

definition ascii :: stdlib where
  "ascii = \<lparr>
     ToLower = map lowerByte,
     EqualFold = (\<lambda>s t. map lowerByte s = map lowerByte t),
     TrimSpace = (\<lambda>s. rev (dropWhile isSpaceByte (rev (dropWhile isSpaceByte s)))),
     Quote = (\<lambda>s. [CHR 0x22] @ concat (map quoteByte s) @ [CHR 0x22]) \<rparr>"

section \<open>sort.Slice\<close>

text \<open>
  \<^verbatim>\<open>sort.Slice(xs, less)\<close> reorders \<open>xs\<close> so that no element is \<open>less\<close> than one
  before it. Go sorts a slice of at most twelve elements by insertion, each element
  moving left past the elements it is \<open>less\<close> than; that is the function below. On
  longer slices Go's algorithm may leave elements that compare equal in another order;
  the theorems use no more of the sort than that it permutes its input.
\<close>

fun insertSorted :: "('a \<Rightarrow> 'a \<Rightarrow> bool) \<Rightarrow> 'a \<Rightarrow> 'a list \<Rightarrow> 'a list" where
  "insertSorted lt x [] = [x]"
| "insertSorted lt x (y # ys) =
     (if lt x y then x # y # ys else y # insertSorted lt x ys)"

definition sortSlice :: "('a \<Rightarrow> 'a \<Rightarrow> bool) \<Rightarrow> 'a list \<Rightarrow> 'a list" where
  "sortSlice lt xs = foldl (\<lambda>acc x. insertSorted lt x acc) [] xs"

section \<open>Transition matching\<close>

record JiraNameField =
  FieldName :: string

record JiraTransition =
  ID :: string
  Name :: string
  To :: "JiraNameField option"

record scoredMatch =
  transition :: JiraTransition
  score :: int

text \<open>
  A Go \<^verbatim>\<open>error\<close> carries its message. Indexing an empty slice panics; the panic is a
  result of its own, so that its absence is a theorem and not a convention.
\<close>

datatype failure = Error string | Panic string

text \<open>
  The slice expression \<^verbatim>\<open>xs[:n]\<close>, of a string or of a slice: it panics when \<open>n\<close>
  is negative or exceeds the length.
\<close>

definition sliceTo :: "'a list \<Rightarrow> int \<Rightarrow> failure + 'a list" where
  "sliceTo xs n =
     (if 0 \<le> n \<and> n \<le> int (length xs) then Inr (take (nat n) xs)
      else Inl (Panic ''slice bounds out of range''))"

definition lessBest :: "stdlib \<Rightarrow> JiraTransition \<Rightarrow> JiraTransition \<Rightarrow> bool" where
  "lessBest L a b =
     (let ni = ToLower L (Name a); nj = ToLower L (Name b) in
      if length (Name a) \<noteq> length (Name b) then length (Name a) < length (Name b)
      else if ni \<noteq> nj then strLess ni nj
      else strLess (ID a) (ID b))"

definition pickBestTransition :: "stdlib \<Rightarrow> JiraTransition list \<Rightarrow> failure + JiraTransition" where
  "pickBestTransition L candidates =
     (if length candidates = 1 then Inr (candidates ! 0)
      else (case sortSlice (lessBest L) candidates of
              [] \<Rightarrow> Inl (Panic ''index out of range [0] with length 0'')
            | c # _ \<Rightarrow> Inr c))"

definition ambiguityWarning :: "stdlib \<Rightarrow> string \<Rightarrow> JiraTransition list \<Rightarrow> JiraTransition \<Rightarrow> string" where
  "ambiguityWarning L query candidates selected =
     (if length candidates \<le> 1 then ''''
      else ''status '' @ Quote L query @ '' matched multiple transitions (''
           @ Join (map Name candidates) '', '' @ ''); using '' @ Quote L (Name selected))"

definition lessScore :: "stdlib \<Rightarrow> scoredMatch \<Rightarrow> scoredMatch \<Rightarrow> bool" where
  "lessScore L a b =
     (if score a \<noteq> score b then score a < score b
      else (let ni = ToLower L (Name (transition a)); nj = ToLower L (Name (transition b)) in
            if ni \<noteq> nj then strLess ni nj
            else length (Name (transition a)) < length (Name (transition b))))"

text \<open>
  One iteration of the \<^verbatim>\<open>for _, t := range transitions\<close> loop: the \<^verbatim>\<open>switch\<close>
  appends \<open>t\<close> to the first of the three slices whose case holds.
\<close>

definition collectStep ::
  "stdlib \<Rightarrow> string \<Rightarrow> string \<Rightarrow>
   JiraTransition list \<times> JiraTransition list \<times> scoredMatch list \<Rightarrow> JiraTransition \<Rightarrow>
   JiraTransition list \<times> JiraTransition list \<times> scoredMatch list" where
  "collectStep L query queryLower acc t =
     (case acc of (exact, prefix, contains) \<Rightarrow>
        let nameLower = ToLower L (Name t) in
        if EqualFold L (Name t) query then (exact @ [t], prefix, contains)
        else if HasPrefix nameLower queryLower then (exact, prefix @ [t], contains)
        else if Contains nameLower queryLower
          then (exact, prefix,
                contains @ [\<lparr>transition = t, score = Index nameLower queryLower\<rparr>])
        else (exact, prefix, contains))"

definition collectMatches ::
  "stdlib \<Rightarrow> string \<Rightarrow> JiraTransition list \<Rightarrow>
   JiraTransition list \<times> JiraTransition list \<times> scoredMatch list" where
  "collectMatches L query transitions =
     foldl (collectStep L query (ToLower L query)) ([], [], []) transitions"

text \<open>
  \<^verbatim>\<open>matchTransition\<close> returns the transition, \<^verbatim>\<open>matchedBy\<close> and the warning, or the
  error.
\<close>

definition matchTransition ::
  "stdlib \<Rightarrow> JiraTransition list \<Rightarrow> string \<Rightarrow> failure + (JiraTransition \<times> string \<times> string)" where
  "matchTransition L transitions targetStatus =
     (let query = TrimSpace L targetStatus in
      if query = '''' then Inl (Error ''--status is required'')
      else
        (case collectMatches L query transitions of (exact, prefix, contains) \<Rightarrow>
           if 0 < length exact then
             (case pickBestTransition L exact of
                Inl e \<Rightarrow> Inl e
              | Inr picked \<Rightarrow> Inr (picked, ''exact'', ''''))
           else if 0 < length prefix then
             (case pickBestTransition L prefix of
                Inl e \<Rightarrow> Inl e
              | Inr picked \<Rightarrow> Inr (picked, ''prefix'', ambiguityWarning L query prefix picked))
           else if 0 < length contains then
             (let candidates = map transition (sortSlice (lessScore L) contains) in
              case pickBestTransition L candidates of
                Inl e \<Rightarrow> Inl e
              | Inr picked \<Rightarrow>
                  Inr (picked, ''contains'', ambiguityWarning L query candidates picked))
           else
             Inl (Error (''no transition matching '' @ Quote L query
                         @ ''; available transitions: ''
                         @ Join (map Name transitions) '', ''))))"

section \<open>Issue search\<close>

text \<open>
  \<^verbatim>\<open>searchIssues\<close> pages through the search endpoint. Building the URL, sending the
  request and decoding the response are the transport: a function from its state and the
  request's query parameters (\<^verbatim>\<open>jql\<close>, \<^verbatim>\<open>maxResults\<close>, and \<^verbatim>\<open>nextPageToken\<close> when
  it is not empty) to the decoded response or the error, and the transport's next state.
  Nothing is assumed about it: a page may hold more issues than \<^verbatim>\<open>maxResults\<close> asked
  for, and \<^verbatim>\<open>total\<close> may be any integer. Go's \<^verbatim>\<open>int\<close> is 64 bits wide; the loop only
  compares, and subtracts a length from a larger limit, so nothing wraps and
  \<^typ>\<open>int\<close> stands for it.
\<close>

record JiraIssue =
  Key :: string
  Self :: string

record JiraSearchResponse =
  Total :: int
  Issues :: "JiraIssue list"
  NextPageToken :: string

record SearchIssuesResult =
  Issues :: "JiraIssue list"
  Total :: int
  HasMore :: bool

record SearchRequest =
  jql :: string
  maxResults :: int
  nextPageToken :: "string option"

definition minInt :: "int \<Rightarrow> int \<Rightarrow> int" where
  "minInt a b = (if a < b then a else b)"

text \<open>
  The \<^verbatim>\<open>for len(all) < limit\<close> loop, from the values of \<^verbatim>\<open>all\<close>,
  \<^verbatim>\<open>nextPageToken\<close> and \<^verbatim>\<open>result.Total\<close> at the head of an iteration to their values
  when the loop is left. An error leaves the function at once.
\<close>

function searchLoop ::
  "('s \<Rightarrow> SearchRequest \<Rightarrow> (failure + JiraSearchResponse) \<times> 's) \<Rightarrow> 's \<Rightarrow> string \<Rightarrow> int \<Rightarrow>
   JiraIssue list \<Rightarrow> string \<Rightarrow> int \<Rightarrow> failure + (JiraIssue list \<times> string \<times> int)" where
  "searchLoop server st q limit all tok resTotal =
     (if int (length all) < limit then
        (case server st \<lparr>jql = q, maxResults = minInt (limit - int (length all)) 100,
                         nextPageToken = (if tok \<noteq> '''' then Some tok else None)\<rparr> of
           (Inl err, st') \<Rightarrow> Inl err
         | (Inr searchResp, st') \<Rightarrow>
             if length (JiraSearchResponse.Issues searchResp) = 0
                \<or> NextPageToken searchResp = ''''
             then Inr (all @ JiraSearchResponse.Issues searchResp, NextPageToken searchResp,
                       JiraSearchResponse.Total searchResp)
             else searchLoop server st' q limit (all @ JiraSearchResponse.Issues searchResp)
                    (NextPageToken searchResp) (JiraSearchResponse.Total searchResp))
      else Inr (all, tok, resTotal))"
  by pat_completeness auto
termination
  by (relation "measure (\<lambda>(server, st, q, limit, all, tok, resTotal).
                           nat (limit - int (length all)))")
     auto

declare searchLoop.simps [simp del]

definition searchIssues ::
  "('s \<Rightarrow> SearchRequest \<Rightarrow> (failure + JiraSearchResponse) \<times> 's) \<Rightarrow> 's \<Rightarrow> string \<Rightarrow> int \<Rightarrow>
   failure + SearchIssuesResult" where
  "searchIssues server st q limit =
     (case searchLoop server st q limit [] '''' 0 of
        Inl err \<Rightarrow> Inl err
      | Inr (all, tok, resTotal) \<Rightarrow>
          (case (if limit < int (length all) then sliceTo all limit else Inr all) of
             Inl err \<Rightarrow> Inl err
           | Inr all' \<Rightarrow>
               Inr \<lparr>Issues = all', Total = resTotal,
                    HasMore = (tok \<noteq> '''' \<or> int (length all') < resTotal)\<rparr>))"

text \<open>
  The responses that the loop decodes, in the order of the requests: the same loop,
  keeping each response instead of the three variables. It serves to say which response
  was the last.
\<close>

function searchPages ::
  "('s \<Rightarrow> SearchRequest \<Rightarrow> (failure + JiraSearchResponse) \<times> 's) \<Rightarrow> 's \<Rightarrow> string \<Rightarrow> int \<Rightarrow>
   JiraIssue list \<Rightarrow> string \<Rightarrow> JiraSearchResponse list" where
  "searchPages server st q limit all tok =
     (if int (length all) < limit then
        (case server st \<lparr>jql = q, maxResults = minInt (limit - int (length all)) 100,
                         nextPageToken = (if tok \<noteq> '''' then Some tok else None)\<rparr> of
           (Inl err, st') \<Rightarrow> []
         | (Inr searchResp, st') \<Rightarrow>
             if length (JiraSearchResponse.Issues searchResp) = 0
                \<or> NextPageToken searchResp = ''''
             then [searchResp]
             else searchResp # searchPages server st' q limit
                    (all @ JiraSearchResponse.Issues searchResp) (NextPageToken searchResp))
      else [])"
  by pat_completeness auto
termination
  by (relation "measure (\<lambda>(server, st, q, limit, all, tok).
                           nat (limit - int (length all)))")
     auto

declare searchPages.simps [simp del]

section \<open>Document text extraction\<close>

text \<open>
  A decoded JSON value (Go's \<^verbatim>\<open>any\<close>); an object is its list of members, read with
  \<^const>\<open>map_of\<close>. The extractor never looks into a number.
\<close>

datatype any =
    Null
  | Boolean bool
  | Number int
  | String string
  | Array "any list"
  | Object "(string \<times> any) list"

text \<open>The type assertion \<^verbatim>\<open>node[k].(string)\<close>.\<close>

definition stringField :: "(string \<times> any) list \<Rightarrow> string \<Rightarrow> string option" where
  "stringField node k = (case map_of node k of Some (String s) \<Rightarrow> Some s | _ \<Rightarrow> None)"

definition isBlock :: "string \<Rightarrow> bool" where
  "isBlock childType =
     (childType = ''paragraph'' \<or> childType = ''heading'' \<or> childType = ''bulletList''
      \<or> childType = ''orderedList'' \<or> childType = ''blockquote'' \<or> childType = ''codeBlock''
      \<or> childType = ''mediaSingle'' \<or> childType = ''rule'')"

text \<open>
  \<^verbatim>\<open>adfExtract\<close> writes to a \<^verbatim>\<open>strings.Builder\<close>; the model takes the builder's
  content and returns the new content. \<open>adfChildren\<close> is the loop over \<^verbatim>\<open>content\<close>
  from one child on: \<^verbatim>\<open>i < len(content)-1\<close> holds when children remain after it.
\<close>

function adfExtract :: "(string \<times> any) list \<Rightarrow> string \<Rightarrow> string"
  and adfChildren :: "any list \<Rightarrow> string \<Rightarrow> string" where
  "adfExtract node sb =
     (let sb1 = (case stringField node ''text'' of Some text \<Rightarrow> sb @ text | None \<Rightarrow> sb) in
      case map_of node ''content'' of
        Some (Array content) \<Rightarrow>
          (let nodeType = (case stringField node ''type'' of Some s \<Rightarrow> s | None \<Rightarrow> '''');
               sb2 = adfChildren content sb1
           in if nodeType = ''listItem'' then sb2 @ [CHR 0x0A] else sb2)
      | _ \<Rightarrow> sb1)"
| "adfChildren [] sb = sb"
| "adfChildren (child # rest) sb =
     (case child of
        Object childMap \<Rightarrow>
          (let sb1 = adfExtract childMap sb;
               childType = (case stringField childMap ''type'' of Some s \<Rightarrow> s | None \<Rightarrow> '''')
           in adfChildren rest
                (if isBlock childType \<and> rest \<noteq> [] then sb1 @ [CHR 0x0A] else sb1))
      | _ \<Rightarrow> adfChildren rest sb)"
  by pat_completeness auto
termination
proof -
  have member: "map_of node k = Some v \<Longrightarrow> size v < Suc (size_list (size_prod (\<lambda>_. 0) size) node)"
    for node :: "(string \<times> any) list" and k v
    by (induction node) (auto split: if_splits)
  show ?thesis
    apply (relation "measure (\<lambda>x. case x of
              Inl (node, sb) \<Rightarrow> Suc (size_list (size_prod (\<lambda>_. 0) size) node)
            | Inr (content, sb) \<Rightarrow> Suc (size_list size content))")
       apply simp
      apply (auto dest: member)
    done
qed

definition adfToText :: "stdlib \<Rightarrow> any \<Rightarrow> string" where
  "adfToText L v =
     (case v of
        Null \<Rightarrow> ''''
      | String s \<Rightarrow> s
      | Object doc \<Rightarrow> TrimSpace L (adfExtract doc '''')
      | _ \<Rightarrow> '''')"

section \<open>Date formatting\<close>



section \<open>Sample inputs\<close>











text \<open>The transitions of the repository's tests, and others.\<close>

definition trDone :: JiraTransition where
  "trDone = \<lparr>ID = ''10'', Name = ''Done'', To = None\<rparr>"

definition trDoneQA :: JiraTransition where
  "trDoneQA = \<lparr>ID = ''11'', Name = ''Done (QA)'', To = None\<rparr>"

definition trInProgress :: JiraTransition where
  "trInProgress = \<lparr>ID = ''1'', Name = ''In Progress'', To = None\<rparr>"

definition trDoneLower :: JiraTransition where
  "trDoneLower = \<lparr>ID = ''12'', Name = ''done'', To = None\<rparr>"

definition trNotDone :: JiraTransition where
  "trNotDone = \<lparr>ID = ''13'', Name = ''Not Done'', To = None\<rparr>"

definition trUnnamed :: JiraTransition where
  "trUnnamed = \<lparr>ID = ''1'', Name = '''', To = None\<rparr>"

definition trPeerReview :: JiraTransition where
  "trPeerReview = \<lparr>ID = ''31'', Name = ''Peer Review'', To = None\<rparr>"

definition trInReviewSecurity :: JiraTransition where
  "trInReviewSecurity = \<lparr>ID = ''32'', Name = ''In Review (Security)'', To = None\<rparr>"

text \<open>
  The server of the repository's test: two issues and a token on the first request, an
  empty page on a request that carries a token. And a server that answers every request
  with three issues, no token and a total of three.
\<close>

definition issue :: "string \<Rightarrow> JiraIssue" where
  "issue k = \<lparr>Key = k, Self = ''''\<rparr>"

definition testServer :: "unit \<Rightarrow> SearchRequest \<Rightarrow> (failure + JiraSearchResponse) \<times> unit" where
  "testServer st req =
     (if nextPageToken req = None
      then (Inr \<lparr>JiraSearchResponse.Total = 5,
                 JiraSearchResponse.Issues = [issue ''PROJ-1'', issue ''PROJ-2''],
                 NextPageToken = ''page-2''\<rparr>, ())
      else (Inr \<lparr>JiraSearchResponse.Total = 5, JiraSearchResponse.Issues = [],
                 NextPageToken = ''''\<rparr>, ()))"

definition overshootServer :: "unit \<Rightarrow> SearchRequest \<Rightarrow> (failure + JiraSearchResponse) \<times> unit" where
  "overshootServer st req =
     (Inr \<lparr>JiraSearchResponse.Total = 3,
           JiraSearchResponse.Issues = [issue ''PROJ-1'', issue ''PROJ-2'', issue ''PROJ-3''],
           NextPageToken = ''''\<rparr>, ())"

section \<open>Facts about the library functions and the sort\<close>

lemma set_insertSorted: "set (insertSorted lt x ys) = insert x (set ys)"
  by (induction ys) auto

lemma length_insertSorted: "length (insertSorted lt x ys) = Suc (length ys)"
  by (induction ys) auto

lemma set_foldl_insertSorted:
  "set (foldl (\<lambda>acc x. insertSorted lt x acc) acc xs) = set acc \<union> set xs"
  by (induction xs arbitrary: acc) (auto simp: set_insertSorted)

lemma length_foldl_insertSorted:
  "length (foldl (\<lambda>acc x. insertSorted lt x acc) acc xs) = length acc + length xs"
  by (induction xs arbitrary: acc) (auto simp: length_insertSorted)

lemma set_sortSlice: "set (sortSlice lt xs) = set xs"
  by (simp add: sortSlice_def set_foldl_insertSorted)

lemma length_sortSlice: "length (sortSlice lt xs) = length xs"
  by (simp add: sortSlice_def length_foldl_insertSorted)

lemma sortSlice_Nil_iff: "sortSlice lt xs = [] \<longleftrightarrow> xs = []"
  using length_sortSlice [of lt xs] by (metis length_0_conv)

lemma pickBestTransition_member:
  assumes "candidates \<noteq> []"
  shows "\<exists>p. pickBestTransition L candidates = Inr p \<and> p \<in> set candidates"
proof (cases "length candidates = 1")
  case True
  then show ?thesis by (simp add: pickBestTransition_def)
next
  case False
  from assms have "sortSlice (lessBest L) candidates \<noteq> []"
    by (simp add: sortSlice_Nil_iff)
  then obtain c cs where srt: "sortSlice (lessBest L) candidates = c # cs"
    by (cases "sortSlice (lessBest L) candidates") auto
  then have "c \<in> set (sortSlice (lessBest L) candidates)" by simp
  then have "c \<in> set candidates" by (simp add: set_sortSlice)
  with False srt show ?thesis by (simp add: pickBestTransition_def)
qed

lemma collect_foldl:
  "foldl (collectStep L q ql) (e, p, c) ts =
     (e @ filter (\<lambda>t. EqualFold L (Name t) q) ts,
      p @ filter (\<lambda>t. \<not> EqualFold L (Name t) q \<and> HasPrefix (ToLower L (Name t)) ql) ts,
      c @ map (\<lambda>t. \<lparr>transition = t, score = Index (ToLower L (Name t)) ql\<rparr>)
            (filter (\<lambda>t. \<not> EqualFold L (Name t) q \<and> \<not> HasPrefix (ToLower L (Name t)) ql
                          \<and> Contains (ToLower L (Name t)) ql) ts))"
  by (induction ts arbitrary: e p c) (simp_all add: collectStep_def Let_def)

lemma collectMatches_eq:
  "collectMatches L q ts =
     (filter (\<lambda>t. EqualFold L (Name t) q) ts,
      filter (\<lambda>t. \<not> EqualFold L (Name t) q \<and> HasPrefix (ToLower L (Name t)) (ToLower L q)) ts,
      map (\<lambda>t. \<lparr>transition = t, score = Index (ToLower L (Name t)) (ToLower L q)\<rparr>)
            (filter (\<lambda>t. \<not> EqualFold L (Name t) q \<and> \<not> HasPrefix (ToLower L (Name t)) (ToLower L q)
                          \<and> Contains (ToLower L (Name t)) (ToLower L q)) ts))"
  by (simp add: collectMatches_def collect_foldl)

lemma HasPrefix_append: "HasPrefix (sub @ b) sub"
  by (simp add: HasPrefix_def)

lemma HasPrefix_iff: "HasPrefix s sub \<longleftrightarrow> (\<exists>b. s = sub @ b)"
  unfolding HasPrefix_def
  by (metis append_eq_conv_conj append_take_drop_id length_append le_add1)

lemma Index_nonneg_iff: "0 \<le> Index s sub \<longleftrightarrow> (\<exists>a b. s = a @ sub @ b)"
proof (induction s)
  case Nil
  then show ?case by auto
next
  case (Cons c s)
  show ?case
  proof (cases "HasPrefix (c # s) sub")
    case True
    then obtain b where "c # s = sub @ b" by (auto simp: HasPrefix_iff)
    then have "c # s = [] @ sub @ b" by simp
    with True show ?thesis by (metis Index.simps(2) order_refl)
  next
    case False
    have "(\<exists>a b. c # s = a @ sub @ b) \<longleftrightarrow> (\<exists>a b. s = a @ sub @ b)"
    proof
      assume "\<exists>a b. c # s = a @ sub @ b"
      then obtain a b where ab: "c # s = a @ sub @ b" by blast
      show "\<exists>a b. s = a @ sub @ b"
      proof (cases a)
        case Nil
        with ab False show ?thesis by (simp add: HasPrefix_iff)
      next
        case (Cons a0 a')
        with ab have "s = a' @ sub @ b" by simp
        then show ?thesis by blast
      qed
    next
      assume "\<exists>a b. s = a @ sub @ b"
      then obtain a b where "s = a @ sub @ b" by blast
      then have "c # s = (c # a) @ sub @ b" by simp
      then show "\<exists>a b. c # s = a @ sub @ b" by blast
    qed
    with False Cons show ?thesis by (auto simp: Let_def)
  qed
qed

lemma Contains_iff: "Contains s sub \<longleftrightarrow> (\<exists>a b. s = a @ sub @ b)"
  by (simp add: Contains_def Index_nonneg_iff)

text \<open>\<^const>\<open>Index\<close> is the position of the first occurrence.\<close>

lemma Index_ge: "- 1 \<le> Index s sub"
  by (induction s) (auto simp: Let_def)

lemma Index_first:
  assumes "Index s sub = int i"
  shows "HasPrefix (drop i s) sub \<and> (\<forall>j < i. \<not> HasPrefix (drop j s) sub)"
  using assms
proof (induction s arbitrary: i)
  case Nil
  then show ?case by (auto simp: HasPrefix_def split: if_splits)
next
  case (Cons c s)
  show ?case
  proof (cases "HasPrefix (c # s) sub")
    case True
    with Cons.prems have "i = 0" by simp
    with True show ?thesis by simp
  next
    case False
    with Cons.prems have r: "0 \<le> Index s sub" "Index s sub + 1 = int i"
      by (auto simp: Let_def split: if_splits)
    then obtain k where k: "i = Suc k" "Index s sub = int k"
      by (cases i) auto
    from Cons.IH [OF k(2)] have ih: "HasPrefix (drop k s) sub"
      "\<forall>j < k. \<not> HasPrefix (drop j s) sub" by simp_all
    have "\<not> HasPrefix (drop j (c # s)) sub" if "j < i" for j
    proof (cases j)
      case 0
      with False show ?thesis by simp
    next
      case (Suc j')
      with that k have "j' < k" by simp
      with ih Suc show ?thesis by simp
    qed
    with ih k show ?thesis by simp
  qed
qed

lemma Contains_Join: "n \<in> set names \<Longrightarrow> Contains (Join names sep) n"
proof (induction names sep rule: Join.induct)
  case (1 sep)
  then show ?case by simp
next
  case (2 a sep)
  then have "Join [a] sep = [] @ n @ []" by simp
  then show ?case unfolding Contains_iff by blast
next
  case (3 a b rest sep)
  show ?case
  proof (cases "n = a")
    case True
    then have "Join (a # b # rest) sep = [] @ n @ (sep @ Join (b # rest) sep)" by simp
    then show ?thesis unfolding Contains_iff by blast
  next
    case False
    with 3 have "Contains (Join (b # rest) sep) n" by simp
    then obtain x y where "Join (b # rest) sep = x @ n @ y" unfolding Contains_iff by blast
    then have "Join (a # b # rest) sep = (a @ sep @ x) @ n @ y" by simp
    then show ?thesis unfolding Contains_iff by blast
  qed
qed

section \<open>The tiers of matchTransition\<close>

text \<open>
  With a query that is not blank, \<^const>\<open>matchTransition\<close> is decided by the three
  slices the loop collected.
\<close>

lemma matchTransition_cases:
  assumes q: "TrimSpace L target \<noteq> []"
    and c: "collectMatches L (TrimSpace L target) ts = (exact, prefix, contains)"
  shows "matchTransition L ts target =
     (if exact \<noteq> [] then
        (case pickBestTransition L exact of Inl e \<Rightarrow> Inl e
         | Inr picked \<Rightarrow> Inr (picked, ''exact'', ''''))
      else if prefix \<noteq> [] then
        (case pickBestTransition L prefix of Inl e \<Rightarrow> Inl e
         | Inr picked \<Rightarrow>
             Inr (picked, ''prefix'', ambiguityWarning L (TrimSpace L target) prefix picked))
      else if contains \<noteq> [] then
        (case pickBestTransition L (map transition (sortSlice (lessScore L) contains)) of
           Inl e \<Rightarrow> Inl e
         | Inr picked \<Rightarrow>
             Inr (picked, ''contains'',
                  ambiguityWarning L (TrimSpace L target)
                    (map transition (sortSlice (lessScore L) contains)) picked))
      else Inl (Error (''no transition matching '' @ Quote L (TrimSpace L target)
                       @ ''; available transitions: '' @ Join (map Name ts) '', '')))"
  using q c by (simp add: matchTransition_def Let_def)

text \<open>
  C5. Whenever \<^const>\<open>matchTransition\<close> succeeds, the transition it returns is one of
  the transitions it was given, with its id, name and target as they were passed in.
\<close>

theorem matchTransition_selected_member:
  assumes "matchTransition L transitions targetStatus = Inr (selected, matchedBy, warning)"
  shows "selected \<in> set transitions"
proof -
  let ?q = "TrimSpace L targetStatus"
  obtain exact prefix contains where
    c: "collectMatches L ?q transitions = (exact, prefix, contains)"
    by (cases "collectMatches L ?q transitions") auto
  from assms have q: "?q \<noteq> []"
    by (auto simp: matchTransition_def Let_def split: if_splits)
  have e: "set exact \<subseteq> set transitions" and p: "set prefix \<subseteq> set transitions"
    and s: "transition ` set contains \<subseteq> set transitions"
    using c by (auto simp: collectMatches_eq)
  note m = matchTransition_cases [OF q c]
  show ?thesis
  proof (cases "exact \<noteq> []")
    case True
    then obtain x where "pickBestTransition L exact = Inr x" "x \<in> set exact"
      using pickBestTransition_member by blast
    with assms m True e show ?thesis by auto
  next
    case ne: False
    show ?thesis
    proof (cases "prefix \<noteq> []")
      case True
      then obtain x where "pickBestTransition L prefix = Inr x" "x \<in> set prefix"
        using pickBestTransition_member by blast
      with assms m ne True p show ?thesis by auto
    next
      case np: False
      show ?thesis
      proof (cases "contains \<noteq> []")
        case True
        let ?cands = "map transition (sortSlice (lessScore L) contains)"
        from True have "?cands \<noteq> []" by (simp add: sortSlice_Nil_iff)
        then obtain x where x: "pickBestTransition L ?cands = Inr x" "x \<in> set ?cands"
          using pickBestTransition_member by blast
        then have "x \<in> transition ` set contains" by (simp add: set_sortSlice)
        with assms m ne np True s x show ?thesis by auto
      next
        case False
        with assms m ne np show ?thesis by simp
      qed
    qed
  qed
qed

theorem matchTransition_selected_member_witness:
  "matchTransition ascii [trDone, trDoneQA] ''Do''
     = Inr (trDone, ''prefix'',
            ''status '' @ [CHR 0x22] @ ''Do'' @ [CHR 0x22]
            @ '' matched multiple transitions (Done, Done (QA)); using ''
            @ [CHR 0x22] @ ''Done'' @ [CHR 0x22])
   \<and> trDone \<in> set [trDone, trDoneQA]"
proof -
  have run: "matchTransition ascii [trDone, trDoneQA] ''Do''
     = Inr (trDone, ''prefix'',
            ''status '' @ [CHR 0x22] @ ''Do'' @ [CHR 0x22]
            @ '' matched multiple transitions (Done, Done (QA)); using ''
            @ [CHR 0x22] @ ''Done'' @ [CHR 0x22])"
    by code_simp
  from matchTransition_selected_member [OF run] run show ?thesis by simp
qed

text \<open>
  C4, as amended. For every target status that is not blank once trimmed, and every
  transition list holding a transition whose name equals the trimmed query under
  \<^verbatim>\<open>strings.EqualFold\<close>, \<^const>\<open>matchTransition\<close> returns a transition of the list
  whose name equals the query in that sense, with \<^verbatim>\<open>matchedBy = "exact"\<close> and an empty
  warning, whatever else the list holds.
\<close>

theorem matchTransition_exact_wins:
  assumes q: "TrimSpace L targetStatus \<noteq> []"
    and t: "t \<in> set transitions"
    and eq: "EqualFold L (Name t) (TrimSpace L targetStatus)"
  shows "\<exists>selected. matchTransition L transitions targetStatus = Inr (selected, ''exact'', '''')
           \<and> selected \<in> set transitions
           \<and> EqualFold L (Name selected) (TrimSpace L targetStatus)"
proof -
  let ?q = "TrimSpace L targetStatus"
  obtain exact prefix contains where
    c: "collectMatches L ?q transitions = (exact, prefix, contains)"
    by (cases "collectMatches L ?q transitions") auto
  then have ex: "exact = filter (\<lambda>t. EqualFold L (Name t) ?q) transitions"
    by (simp add: collectMatches_eq)
  with t eq have "t \<in> set exact" by simp
  then have ne: "exact \<noteq> []" by auto
  then obtain x where x: "pickBestTransition L exact = Inr x" "x \<in> set exact"
    using pickBestTransition_member by blast
  from x(2) ex have "x \<in> set transitions" "EqualFold L (Name x) ?q" by simp_all
  moreover from matchTransition_cases [OF q c] ne x(1)
  have "matchTransition L transitions targetStatus = Inr (x, ''exact'', '''')" by simp
  ultimately show ?thesis by blast
qed

theorem matchTransition_exact_wins_witness:
  "TrimSpace ascii ''Done'' \<noteq> [] \<and> trDone \<in> set [trDoneQA, trDone]
   \<and> EqualFold ascii (Name trDone) (TrimSpace ascii ''Done'')
   \<and> (\<exists>selected. matchTransition ascii [trDoneQA, trDone] ''Done''
                      = Inr (selected, ''exact'', '''')
         \<and> selected \<in> set [trDoneQA, trDone]
         \<and> EqualFold ascii (Name selected) (TrimSpace ascii ''Done''))"
proof -
  have q: "TrimSpace ascii ''Done'' \<noteq> []" by code_simp
  have t: "trDone \<in> set [trDoneQA, trDone]" by simp
  have eq: "EqualFold ascii (Name trDone) (TrimSpace ascii ''Done'')" by code_simp
  from matchTransition_exact_wins [OF q t eq] q t eq show ?thesis by blast
qed

text \<open>
  C4 as it was stated fails for the blank query: a transition with the empty name equals
  it, and \<^const>\<open>matchTransition\<close> returns the error of its first check.
\<close>

theorem matchTransition_exact_blank_counterexample:
  "trUnnamed \<in> set [trUnnamed] \<and> EqualFold ascii (Name trUnnamed) ''''
   \<and> matchTransition ascii [trUnnamed] '''' = Inl (Error ''--status is required'')"
  by code_simp

text \<open>
  C7, as amended. For every target status that is not blank once trimmed and that no
  transition matches at any tier, \<^const>\<open>matchTransition\<close> fails with the message
  \<^verbatim>\<open>no transition matching Q; available transitions: N\<close>, where \<open>Q\<close> is the trimmed
  query as the \<^verbatim>\<open>%q\<close> verb renders it (quoted and escaped) and \<open>N\<close> is the names of
  all transitions, unchanged, in input order, joined by a comma and a space. So the
  message contains the rendered query and every name.
\<close>

theorem matchTransition_no_match:
  assumes q: "TrimSpace L targetStatus \<noteq> []"
    and none: "\<forall>t \<in> set transitions.
        \<not> EqualFold L (Name t) (TrimSpace L targetStatus)
        \<and> \<not> HasPrefix (ToLower L (Name t)) (ToLower L (TrimSpace L targetStatus))
        \<and> \<not> Contains (ToLower L (Name t)) (ToLower L (TrimSpace L targetStatus))"
  shows "\<exists>msg. matchTransition L transitions targetStatus = Inl (Error msg)
           \<and> msg = ''no transition matching '' @ Quote L (TrimSpace L targetStatus)
                   @ ''; available transitions: '' @ Join (map Name transitions) '', ''
           \<and> Contains msg (Quote L (TrimSpace L targetStatus))
           \<and> (\<forall>t \<in> set transitions. Contains msg (Name t))"
proof -
  let ?q = "TrimSpace L targetStatus"
  let ?names = "Join (map Name transitions) '', ''"
  let ?msg = "''no transition matching '' @ Quote L ?q @ ''; available transitions: '' @ ?names"
  have c: "collectMatches L ?q transitions = ([], [], [])"
    using none by (simp add: collectMatches_eq filter_empty_conv)
  have run: "matchTransition L transitions targetStatus = Inl (Error ?msg)"
    using matchTransition_cases [OF q c] by simp
  have cq: "Contains ?msg (Quote L ?q)"
    unfolding Contains_iff by blast
  have cn: "Contains ?msg (Name t)" if "t \<in> set transitions" for t
  proof -
    from that have "Name t \<in> set (map Name transitions)" by simp
    then have "Contains ?names (Name t)" by (rule Contains_Join)
    then obtain a b where "?names = a @ Name t @ b" unfolding Contains_iff by blast
    then have "?msg = (''no transition matching '' @ Quote L ?q
                        @ ''; available transitions: '' @ a) @ Name t @ b"
      by simp
    then show ?thesis unfolding Contains_iff by blast
  qed
  from run cq cn show ?thesis by blast
qed

theorem matchTransition_no_match_witness:
  "TrimSpace ascii ''Blocked'' \<noteq> []
   \<and> \<not> EqualFold ascii (Name trInProgress) (TrimSpace ascii ''Blocked'')
   \<and> \<not> HasPrefix (ToLower ascii (Name trInProgress)) (ToLower ascii (TrimSpace ascii ''Blocked''))
   \<and> \<not> Contains (ToLower ascii (Name trInProgress)) (ToLower ascii (TrimSpace ascii ''Blocked''))
   \<and> \<not> EqualFold ascii (Name trDone) (TrimSpace ascii ''Blocked'')
   \<and> \<not> HasPrefix (ToLower ascii (Name trDone)) (ToLower ascii (TrimSpace ascii ''Blocked''))
   \<and> \<not> Contains (ToLower ascii (Name trDone)) (ToLower ascii (TrimSpace ascii ''Blocked''))
   \<and> matchTransition ascii [trInProgress, trDone] ''Blocked''
       = Inl (Error (''no transition matching '' @ [CHR 0x22] @ ''Blocked'' @ [CHR 0x22]
                     @ ''; available transitions: In Progress, Done''))"
proof -
  have q: "TrimSpace ascii ''Blocked'' \<noteq> []" by code_simp
  have none: "\<forall>t \<in> set [trInProgress, trDone].
        \<not> EqualFold ascii (Name t) (TrimSpace ascii ''Blocked'')
        \<and> \<not> HasPrefix (ToLower ascii (Name t)) (ToLower ascii (TrimSpace ascii ''Blocked''))
        \<and> \<not> Contains (ToLower ascii (Name t)) (ToLower ascii (TrimSpace ascii ''Blocked''))"
    by code_simp
  have msg: "''no transition matching '' @ Quote ascii (TrimSpace ascii ''Blocked'')
               @ ''; available transitions: '' @ Join (map Name [trInProgress, trDone]) '', ''
             = ''no transition matching '' @ [CHR 0x22] @ ''Blocked'' @ [CHR 0x22]
               @ ''; available transitions: In Progress, Done''"
    by code_simp
  have each: "\<not> EqualFold ascii (Name trInProgress) (TrimSpace ascii ''Blocked'')
   \<and> \<not> HasPrefix (ToLower ascii (Name trInProgress)) (ToLower ascii (TrimSpace ascii ''Blocked''))
   \<and> \<not> Contains (ToLower ascii (Name trInProgress)) (ToLower ascii (TrimSpace ascii ''Blocked''))
   \<and> \<not> EqualFold ascii (Name trDone) (TrimSpace ascii ''Blocked'')
   \<and> \<not> HasPrefix (ToLower ascii (Name trDone)) (ToLower ascii (TrimSpace ascii ''Blocked''))
   \<and> \<not> Contains (ToLower ascii (Name trDone)) (ToLower ascii (TrimSpace ascii ''Blocked''))"
    using none by simp
  from matchTransition_no_match [OF q none] msg
  have "matchTransition ascii [trInProgress, trDone] ''Blocked''
       = Inl (Error (''no transition matching '' @ [CHR 0x22] @ ''Blocked'' @ [CHR 0x22]
                     @ ''; available transitions: In Progress, Done''))"
    by auto
  with q each show ?thesis by blast
qed

text \<open>
  C7 as it was stated fails for a query that \<^verbatim>\<open>%q\<close> escapes: for the three bytes
  \<^verbatim>\<open>a\b\<close> the message holds \<^verbatim>\<open>"a\\b"\<close>, and the query is no substring of it.
\<close>

theorem matchTransition_no_match_counterexample:
  "collectMatches ascii [CHR ''a'', CHR 0x5C, CHR ''b''] [trInProgress, trDone] = ([], [], [])
   \<and> matchTransition ascii [trInProgress, trDone] [CHR ''a'', CHR 0x5C, CHR ''b'']
       = Inl (Error (''no transition matching ''
                     @ [CHR 0x22, CHR ''a'', CHR 0x5C, CHR 0x5C, CHR ''b'', CHR 0x22]
                     @ ''; available transitions: In Progress, Done''))
   \<and> \<not> Contains (''no transition matching ''
                  @ [CHR 0x22, CHR ''a'', CHR 0x5C, CHR 0x5C, CHR ''b'', CHR 0x22]
                  @ ''; available transitions: In Progress, Done'')
               [CHR ''a'', CHR 0x5C, CHR ''b'']"
  by code_simp

text \<open>
  C3, as amended. Let the query be the trimmed target status, not blank, and let some
  tier be non-empty. When the winning tier is the exact tier the warning is empty,
  however many candidates it has. When it is the prefix or the contains tier, take the
  candidates in the order in which they are handed to the tie-break: the prefix
  candidates in input order, the contains candidates as sorted by score, lowercase name
  and name length. With two or more candidates the warning is not empty and reads
  \<^verbatim>\<open>status Q matched multiple transitions (N); using S\<close>, where \<open>Q\<close> is the query
  and \<open>S\<close> the selected name as \<^verbatim>\<open>%q\<close> renders them, and \<open>N\<close> the candidates' names
  in that order, joined by a comma and a space; with exactly one candidate the warning
  is empty.
\<close>

theorem matchTransition_warning:
  assumes q: "TrimSpace L targetStatus \<noteq> []"
    and c: "collectMatches L (TrimSpace L targetStatus) transitions = (exact, prefix, contains)"
    and some: "exact \<noteq> [] \<or> prefix \<noteq> [] \<or> contains \<noteq> []"
  shows "\<exists>selected matchedBy warning.
           matchTransition L transitions targetStatus = Inr (selected, matchedBy, warning)
           \<and> (exact \<noteq> [] \<longrightarrow> matchedBy = ''exact'' \<and> warning = [])
           \<and> (exact = [] \<longrightarrow>
                (let candidates = (if prefix \<noteq> [] then prefix
                                   else map transition (sortSlice (lessScore L) contains))
                 in matchedBy = (if prefix \<noteq> [] then ''prefix'' else ''contains'')
                    \<and> selected \<in> set candidates
                    \<and> (2 \<le> length candidates \<longrightarrow>
                          warning \<noteq> []
                          \<and> warning = ''status '' @ Quote L (TrimSpace L targetStatus)
                                @ '' matched multiple transitions (''
                                @ Join (map Name candidates) '', ''
                                @ ''); using '' @ Quote L (Name selected))
                    \<and> (length candidates = 1 \<longrightarrow> warning = [])))"
proof (cases "exact \<noteq> []")
  case True
  then obtain x where x: "pickBestTransition L exact = Inr x"
    using pickBestTransition_member by blast
  with matchTransition_cases [OF q c] True
  have "matchTransition L transitions targetStatus = Inr (x, ''exact'', '''')" by simp
  with True show ?thesis by simp
next
  case False
  then have ex: "exact = []" by simp
  let ?cands = "if prefix \<noteq> [] then prefix
                else map transition (sortSlice (lessScore L) contains)"
  let ?by = "if prefix \<noteq> [] then ''prefix'' else ''contains''"
  from some ex have "?cands \<noteq> []" by (auto simp: sortSlice_Nil_iff)
  then obtain x where x: "pickBestTransition L ?cands = Inr x" "x \<in> set ?cands"
    using pickBestTransition_member by blast
  let ?w = "ambiguityWarning L (TrimSpace L targetStatus) ?cands x"
  have run: "matchTransition L transitions targetStatus = Inr (x, ?by, ?w)"
  proof (cases "prefix \<noteq> []")
    case True
    with matchTransition_cases [OF q c] ex x(1) show ?thesis by simp
  next
    case False
    with some ex have "contains \<noteq> []" by simp
    with matchTransition_cases [OF q c] ex False x(1) show ?thesis by simp
  qed
  have many: "2 \<le> length ?cands \<Longrightarrow>
      ?w = ''status '' @ Quote L (TrimSpace L targetStatus)
           @ '' matched multiple transitions ('' @ Join (map Name ?cands) '', ''
           @ ''); using '' @ Quote L (Name x)"
    by (simp add: ambiguityWarning_def)
  have nonempty: "2 \<le> length ?cands \<Longrightarrow> ?w \<noteq> []"
    by (simp add: ambiguityWarning_def)
  have one: "length ?cands = 1 \<Longrightarrow> ?w = []"
    by (simp add: ambiguityWarning_def)
  from run x(2) many nonempty one ex show ?thesis
    unfolding Let_def by blast
qed

theorem matchTransition_warning_witness:
  "TrimSpace ascii ''Do'' \<noteq> []
   \<and> collectMatches ascii (TrimSpace ascii ''Do'') [trDone, trDoneQA] = ([], [trDone, trDoneQA], [])
   \<and> (\<exists>selected matchedBy.
         matchTransition ascii [trDone, trDoneQA] ''Do''
           = Inr (selected, matchedBy,
                  ''status '' @ Quote ascii ''Do'' @ '' matched multiple transitions (''
                  @ Join (map Name [trDone, trDoneQA]) '', ''
                  @ ''); using '' @ Quote ascii (Name selected)))"
proof -
  have q: "TrimSpace ascii ''Do'' \<noteq> []" by code_simp
  have c: "collectMatches ascii (TrimSpace ascii ''Do'') [trDone, trDoneQA]
             = ([], [trDone, trDoneQA], [])"
    by code_simp
  have t: "TrimSpace ascii ''Do'' = ''Do''" by code_simp
  from matchTransition_warning [OF q c] q c t show ?thesis
    by (auto simp: Let_def)
qed

text \<open>
  C3 as it was stated fails at the exact tier: two transitions whose names equal the
  query are two exact candidates, and the warning is empty.
\<close>

theorem matchTransition_warning_counterexample:
  "collectMatches ascii ''Done'' [trDone, trDoneLower] = ([trDone, trDoneLower], [], [])
   \<and> matchTransition ascii [trDone, trDoneLower] ''Done'' = Inr (trDone, ''exact'', '''')"
  by code_simp

text \<open>
  C10. The loop of \<^const>\<open>matchTransition\<close> puts a transition into one slice at most,
  the first of exact, prefix and contains whose test its name passes: the exact
  candidates are the transitions whose name equals the query under
  \<^verbatim>\<open>strings.EqualFold\<close>; the prefix candidates those that are not exact and whose
  lowercase name begins with the lowercase query; the contains candidates those that are
  neither and whose lowercase name contains it, scored by its index. The three sets of
  candidates are pairwise disjoint.
\<close>

theorem collectMatches_tiers:
  assumes "collectMatches L query transitions = (exact, prefix, contains)"
  shows "set exact \<inter> set prefix = {}
         \<and> set exact \<inter> transition ` set contains = {}
         \<and> set prefix \<inter> transition ` set contains = {}
         \<and> set exact = {t \<in> set transitions. EqualFold L (Name t) query}
         \<and> set prefix = {t \<in> set transitions. \<not> EqualFold L (Name t) query
                \<and> HasPrefix (ToLower L (Name t)) (ToLower L query)}
         \<and> transition ` set contains = {t \<in> set transitions. \<not> EqualFold L (Name t) query
                \<and> \<not> HasPrefix (ToLower L (Name t)) (ToLower L query)
                \<and> Contains (ToLower L (Name t)) (ToLower L query)}
         \<and> (\<forall>m \<in> set contains.
                score m = Index (ToLower L (Name (transition m))) (ToLower L query))"
proof -
  from assms have e: "exact = filter (\<lambda>t. EqualFold L (Name t) query) transitions"
    and p: "prefix = filter (\<lambda>t. \<not> EqualFold L (Name t) query
                \<and> HasPrefix (ToLower L (Name t)) (ToLower L query)) transitions"
    and s: "contains = map (\<lambda>t. \<lparr>transition = t,
                               score = Index (ToLower L (Name t)) (ToLower L query)\<rparr>)
              (filter (\<lambda>t. \<not> EqualFold L (Name t) query
                \<and> \<not> HasPrefix (ToLower L (Name t)) (ToLower L query)
                \<and> Contains (ToLower L (Name t)) (ToLower L query)) transitions)"
    by (simp_all add: collectMatches_eq)
  have se: "set exact = {t \<in> set transitions. EqualFold L (Name t) query}"
    using e by auto
  have sp: "set prefix = {t \<in> set transitions. \<not> EqualFold L (Name t) query
                \<and> HasPrefix (ToLower L (Name t)) (ToLower L query)}"
    using p by auto
  have sc: "transition ` set contains = {t \<in> set transitions. \<not> EqualFold L (Name t) query
                \<and> \<not> HasPrefix (ToLower L (Name t)) (ToLower L query)
                \<and> Contains (ToLower L (Name t)) (ToLower L query)}"
    unfolding s by (auto simp: image_iff)
  have sv: "\<forall>m \<in> set contains.
                score m = Index (ToLower L (Name (transition m))) (ToLower L query)"
    unfolding s by auto
  have d1: "set exact \<inter> set prefix = {}" unfolding se sp by blast
  have d2: "set exact \<inter> transition ` set contains = {}" unfolding se sc by blast
  have d3: "set prefix \<inter> transition ` set contains = {}" unfolding sp sc by blast
  from d1 d2 d3 se sp sc sv show ?thesis by blast
qed

theorem collectMatches_tiers_witness:
  "collectMatches ascii ''done'' [trNotDone, trDone, trDoneQA, trInProgress, trDoneLower]
     = ([trDone, trDoneLower], [trDoneQA], [\<lparr>transition = trNotDone, score = 4\<rparr>])
   \<and> set [trDone, trDoneLower] \<inter> set [trDoneQA] = {}
   \<and> set [trDone, trDoneLower] \<inter> transition ` set [\<lparr>transition = trNotDone, score = 4\<rparr>] = {}
   \<and> set [trDoneQA] \<inter> transition ` set [\<lparr>transition = trNotDone, score = 4\<rparr>] = {}
   \<and> set [trDone, trDoneLower]
       = {t \<in> set [trNotDone, trDone, trDoneQA, trInProgress, trDoneLower].
            EqualFold ascii (Name t) ''done''}
   \<and> score \<lparr>transition = trNotDone, score = 4\<rparr>
       = Index (ToLower ascii (Name (transition \<lparr>transition = trNotDone, score = 4\<rparr>)))
           (ToLower ascii ''done'')"
proof -
  have c: "collectMatches ascii ''done'' [trNotDone, trDone, trDoneQA, trInProgress, trDoneLower]
     = ([trDone, trDoneLower], [trDoneQA], [\<lparr>transition = trNotDone, score = 4\<rparr>])"
    by code_simp
  note tiers = collectMatches_tiers [OF c]
  from tiers have d1: "set [trDone, trDoneLower] \<inter> set [trDoneQA] = {}"
    by (elim conjE)
  from tiers have d2: "set [trDone, trDoneLower]
      \<inter> transition ` set [\<lparr>transition = trNotDone, score = 4\<rparr>] = {}"
    by (elim conjE)
  from tiers have d3: "set [trDoneQA]
      \<inter> transition ` set [\<lparr>transition = trNotDone, score = 4\<rparr>] = {}"
    by (elim conjE)
  from tiers have se: "set [trDone, trDoneLower]
       = {t \<in> set [trNotDone, trDone, trDoneQA, trInProgress, trDoneLower].
            EqualFold ascii (Name t) ''done''}"
    by (elim conjE)
  from tiers have "\<forall>m \<in> set [\<lparr>transition = trNotDone, score = 4\<rparr>].
      score m = Index (ToLower ascii (Name (transition m))) (ToLower ascii ''done'')"
    by (elim conjE)
  then have sv: "score \<lparr>transition = trNotDone, score = 4\<rparr>
       = Index (ToLower ascii (Name (transition \<lparr>transition = trNotDone, score = 4\<rparr>)))
           (ToLower ascii ''done'')"
    by simp
  from c d1 d2 d3 se sv show ?thesis by (intro conjI)
qed

text \<open>
  C2. The contains tier is sorted by the index of the first occurrence of the query, but
  \<^const>\<open>pickBestTransition\<close> then sorts the candidates again, by name length first, and
  the index decides nothing: for the query \<^verbatim>\<open>review\<close>, \<^verbatim>\<open>Peer Review\<close> (index 5) is
  selected over \<^verbatim>\<open>In Review (Security)\<close> (index 3).
\<close>

theorem matchTransition_contains_ignores_index:
  "collectMatches ascii ''review'' [trInReviewSecurity, trPeerReview]
     = ([], [], [\<lparr>transition = trInReviewSecurity, score = 3\<rparr>,
                 \<lparr>transition = trPeerReview, score = 5\<rparr>])
   \<and> matchTransition ascii [trInReviewSecurity, trPeerReview] ''review''
     = Inr (trPeerReview, ''contains'',
            ''status '' @ [CHR 0x22] @ ''review'' @ [CHR 0x22]
            @ '' matched multiple transitions (In Review (Security), Peer Review); using ''
            @ [CHR 0x22] @ ''Peer Review'' @ [CHR 0x22])"
  by code_simp

section \<open>List items\<close>

text \<open>
  A node with a \<^verbatim>\<open>content\<close> array and the type \<^verbatim>\<open>listItem\<close> writes its text, its
  children and one newline.
\<close>

lemma adfExtract_listItem_content:
  assumes "map_of node ''content'' = Some (Array content)"
    and "stringField node ''type'' = Some ''listItem''"
  shows "adfExtract node sb
           = adfChildren content
               (case stringField node ''text'' of Some text \<Rightarrow> sb @ text | None \<Rightarrow> sb)
             @ [CHR 0x0A]"
  using assms by (simp add: Let_def)

text \<open>
  C8. A \<^verbatim>\<open>listItem\<close> node without a \<^verbatim>\<open>content\<close> array leaves \<^const>\<open>adfExtract\<close> at
  the early return, before the newline is written; the same node with an empty array
  gets it.
\<close>

theorem adfExtract_listItem_no_content:
  "adfExtract [(''type'', String ''listItem''), (''text'', String ''x'')] '''' = ''x''
   \<and> adfExtract [(''type'', String ''listItem''), (''text'', String ''x''),
                 (''content'', Array [])] '''' = [CHR ''x'', CHR 0x0A]
   \<and> adfChildren [Object [(''type'', String ''listItem''), (''text'', String ''x'')],
                   Object [(''type'', String ''listItem''), (''text'', String ''y'')]] ''''
       = ''xy''"
  by (simp add: stringField_def isBlock_def)

section \<open>Pagination\<close>

text \<open>
  The three variables with which the loop ends are read off the responses it received:
  \<open>all\<close> has grown by the issues of every response, and the token and the total are
  those of the last response, or as they were when no request was made.
\<close>

lemma searchLoop_pages:
  assumes "searchLoop server st q limit all tok resTotal = Inr (all', tok', total')"
  shows "all' = all @ concat (map JiraSearchResponse.Issues (searchPages server st q limit all tok))
       \<and> tok' = (if searchPages server st q limit all tok = [] then tok
                  else NextPageToken (last (searchPages server st q limit all tok)))
       \<and> total' = (if searchPages server st q limit all tok = [] then resTotal
                    else JiraSearchResponse.Total (last (searchPages server st q limit all tok)))"
  using assms
proof (induction server st q limit all tok resTotal rule: searchLoop.induct)
  case (1 server st q limit all tok resTotal)
  let ?req = "\<lparr>jql = q, maxResults = minInt (limit - int (length all)) 100,
                nextPageToken = (if tok \<noteq> '''' then Some tok else None)\<rparr>"
  show ?case
  proof (cases "int (length all) < limit")
    case False
    then have pages: "searchPages server st q limit all tok = []"
      by (simp add: searchPages.simps [of server st q limit all tok])
    from False "1.prems" have "all' = all" "tok' = tok" "total' = resTotal"
      by (simp_all add: searchLoop.simps [of server st q limit all tok resTotal])
    with pages show ?thesis by simp
  next
    case True
    obtain r st' where sv: "server st ?req = (r, st')" by (cases "server st ?req") auto
    show ?thesis
    proof (cases r)
      case (Inl err)
      with True sv "1.prems" show ?thesis
        by (simp add: searchLoop.simps [of server st q limit all tok resTotal])
    next
      case (Inr resp)
      show ?thesis
      proof (cases "length (JiraSearchResponse.Issues resp) = 0 \<or> NextPageToken resp = ''''")
        case stop: True
        with True sv Inr have pages: "searchPages server st q limit all tok = [resp]"
          by (simp add: searchPages.simps [of server st q limit all tok])
        from stop True sv Inr "1.prems"
        have "all' = all @ JiraSearchResponse.Issues resp" "tok' = NextPageToken resp"
          "total' = JiraSearchResponse.Total resp"
          by (simp_all add: searchLoop.simps [of server st q limit all tok resTotal])
        with pages show ?thesis by simp
      next
        case go: False
        let ?all = "all @ JiraSearchResponse.Issues resp"
        from True sv Inr go "1.prems"
        have rec: "searchLoop server st' q limit ?all (NextPageToken resp)
                     (JiraSearchResponse.Total resp) = Inr (all', tok', total')"
          by (simp add: searchLoop.simps [of server st q limit all tok resTotal])
        have pages: "searchPages server st q limit all tok
                       = resp # searchPages server st' q limit ?all (NextPageToken resp)"
          using True sv Inr go by (simp add: searchPages.simps [of server st q limit all tok])
        from "1.IH" [OF True sv [symmetric] Inr go rec]
        show ?thesis unfolding pages by auto
      qed
    qed
  qed
qed

text \<open>
  With a negative limit no request is made, and \<^verbatim>\<open>all[:limit]\<close> panics.
\<close>

lemma searchIssues_negative_limit:
  "limit < 0 \<Longrightarrow> searchIssues server st q limit = Inl (Panic ''slice bounds out of range'')"
  by (simp add: searchIssues_def searchLoop.simps [of server st q limit "[]" "[]" 0] sliceTo_def)

text \<open>What \<^const>\<open>searchIssues\<close> returns, from the variables the loop ended with.\<close>

lemma searchIssues_result:
  assumes "searchIssues server st q limit = Inr result"
  shows "\<exists>all tok resTotal.
           searchLoop server st q limit [] '''' 0 = Inr (all, tok, resTotal)
           \<and> 0 \<le> limit
           \<and> SearchIssuesResult.Issues result = take (nat limit) all
           \<and> SearchIssuesResult.Total result = resTotal
           \<and> HasMore result
               = (tok \<noteq> '''' \<or> int (length (SearchIssuesResult.Issues result)) < resTotal)"
proof (cases "searchLoop server st q limit [] '''' 0")
  case (Inl err)
  with assms show ?thesis by (simp add: searchIssues_def)
next
  case (Inr triple)
  then obtain all tok resTotal where
    loop: "searchLoop server st q limit [] '''' 0 = Inr (all, tok, resTotal)"
    by (cases triple) auto
  show ?thesis
  proof (cases "limit < int (length all)")
    case True
    with assms loop have ok: "0 \<le> limit"
      and res: "result = \<lparr>SearchIssuesResult.Issues = take (nat limit) all, Total = resTotal,
                    HasMore = (tok \<noteq> '''' \<or> int (length (take (nat limit) all)) < resTotal)\<rparr>"
      by (auto simp: searchIssues_def sliceTo_def split: if_splits)
    from loop ok res show ?thesis by simp
  next
    case False
    then have ok: "0 \<le> limit" and whole: "take (nat limit) all = all" by auto
    from False assms loop
    have res: "result = \<lparr>SearchIssuesResult.Issues = all, Total = resTotal,
                    HasMore = (tok \<noteq> '''' \<or> int (length all) < resTotal)\<rparr>"
      by (auto simp: searchIssues_def)
    from loop ok res whole show ?thesis by simp
  qed
qed

text \<open>
  C6. For every query, every positive limit and every transport, the issues that
  \<^const>\<open>searchIssues\<close> returns are at most \<open>limit\<close> many, whatever pages arrived.
\<close>

theorem searchIssues_length_le_limit:
  assumes "0 < limit"
    and "searchIssues server st q limit = Inr result"
  shows "int (length (SearchIssuesResult.Issues result)) \<le> limit"
proof -
  from searchIssues_result [OF assms(2)] obtain all where
    "SearchIssuesResult.Issues result = take (nat limit) all" by blast
  with assms(1) show ?thesis by simp
qed

theorem searchIssues_length_le_limit_witness:
  "(0::int) < 2
   \<and> searchIssues overshootServer () ''project = PROJ'' 2
       = Inr \<lparr>SearchIssuesResult.Issues = [issue ''PROJ-1'', issue ''PROJ-2''],
              Total = 3, HasMore = True\<rparr>
   \<and> int (length (SearchIssuesResult.Issues
         \<lparr>SearchIssuesResult.Issues = [issue ''PROJ-1'', issue ''PROJ-2''],
          Total = 3, HasMore = True\<rparr>)) \<le> 2"
proof -
  have pos: "(0::int) < 2" by simp
  have run: "searchIssues overshootServer () ''project = PROJ'' 2
       = Inr \<lparr>SearchIssuesResult.Issues = [issue ''PROJ-1'', issue ''PROJ-2''],
              Total = 3, HasMore = True\<rparr>"
    by code_simp
  from searchIssues_length_le_limit [OF pos run] pos run show ?thesis by blast
qed

text \<open>
  C1, as amended. Let \<^const>\<open>searchIssues\<close> return a result, and let \<open>pages\<close> be
  the responses it received, in order. Then the limit is not negative; the issues
  returned are the first \<open>limit\<close> of the issues of all pages; \<^verbatim>\<open>Total\<close> is the total
  of the last response, and 0 when no request was made; and \<^verbatim>\<open>HasMore\<close> is: the
  token of the last response is not empty, or the number of issues returned, counted
  after the truncation to \<open>limit\<close>, is less than that total.
\<close>

theorem searchIssues_hasMore:
  assumes "searchIssues server st q limit = Inr result"
    and "pages = searchPages server st q limit [] ''''"
  shows "0 \<le> limit
         \<and> SearchIssuesResult.Issues result
             = take (nat limit) (concat (map JiraSearchResponse.Issues pages))
         \<and> SearchIssuesResult.Total result
             = (if pages = [] then 0 else JiraSearchResponse.Total (last pages))
         \<and> HasMore result
             = ((if pages = [] then '''' else NextPageToken (last pages)) \<noteq> ''''
                \<or> int (length (SearchIssuesResult.Issues result))
                    < SearchIssuesResult.Total result)"
proof -
  from searchIssues_result [OF assms(1)] obtain all tok resTotal where
    loop: "searchLoop server st q limit [] '''' 0 = Inr (all, tok, resTotal)"
    and ok: "0 \<le> limit"
    and iss: "SearchIssuesResult.Issues result = take (nat limit) all"
    and tot: "SearchIssuesResult.Total result = resTotal"
    and more: "HasMore result
        = (tok \<noteq> '''' \<or> int (length (SearchIssuesResult.Issues result)) < resTotal)"
    by blast
  from searchLoop_pages [OF loop] assms(2)
  have a: "all = concat (map JiraSearchResponse.Issues pages)"
    and t: "tok = (if pages = [] then '''' else NextPageToken (last pages))"
    and r: "resTotal = (if pages = [] then 0 else JiraSearchResponse.Total (last pages))"
    by simp_all
  from iss a have c2: "SearchIssuesResult.Issues result
      = take (nat limit) (concat (map JiraSearchResponse.Issues pages))"
    by simp
  from tot r have c3: "SearchIssuesResult.Total result
      = (if pages = [] then 0 else JiraSearchResponse.Total (last pages))"
    by simp
  from more t tot have c4: "HasMore result
      = ((if pages = [] then '''' else NextPageToken (last pages)) \<noteq> ''''
         \<or> int (length (SearchIssuesResult.Issues result)) < SearchIssuesResult.Total result)"
    by simp
  from ok c2 c3 c4 show ?thesis by (intro conjI)
qed

theorem searchIssues_hasMore_witness:
  "searchIssues testServer () ''project = PROJ'' 2
     = Inr \<lparr>SearchIssuesResult.Issues = [issue ''PROJ-1'', issue ''PROJ-2''],
            Total = 5, HasMore = True\<rparr>
   \<and> searchPages testServer () ''project = PROJ'' 2 [] ''''
     = [\<lparr>JiraSearchResponse.Total = 5,
         JiraSearchResponse.Issues = [issue ''PROJ-1'', issue ''PROJ-2''],
         NextPageToken = ''page-2''\<rparr>]
   \<and> HasMore \<lparr>SearchIssuesResult.Issues = [issue ''PROJ-1'', issue ''PROJ-2''],
              Total = 5, HasMore = True\<rparr>
   \<and> NextPageToken \<lparr>JiraSearchResponse.Total = 5,
         JiraSearchResponse.Issues = [issue ''PROJ-1'', issue ''PROJ-2''],
         NextPageToken = ''page-2''\<rparr> = ''page-2''
   \<and> (0::int) \<le> 2"
proof -
  have run: "searchIssues testServer () ''project = PROJ'' 2
     = Inr \<lparr>SearchIssuesResult.Issues = [issue ''PROJ-1'', issue ''PROJ-2''],
            Total = 5, HasMore = True\<rparr>"
    by code_simp
  have pages: "[\<lparr>JiraSearchResponse.Total = 5,
         JiraSearchResponse.Issues = [issue ''PROJ-1'', issue ''PROJ-2''],
         NextPageToken = ''page-2''\<rparr>] = searchPages testServer () ''project = PROJ'' 2 [] ''''"
    by code_simp
  from searchIssues_hasMore [OF run pages] run pages show ?thesis by simp
qed

text \<open>
  C1 as it was stated counts the issues before the truncation. A page that overshoots
  separates the two: with a limit of 2 and a single response of three issues, no token
  and a total of 3, the count before truncation is not below the total, and
  \<^verbatim>\<open>HasMore\<close> is true.
\<close>

theorem searchIssues_hasMore_counterexample:
  "searchPages overshootServer () ''project = PROJ'' 2 [] ''''
     = [\<lparr>JiraSearchResponse.Total = 3,
         JiraSearchResponse.Issues = [issue ''PROJ-1'', issue ''PROJ-2'', issue ''PROJ-3''],
         NextPageToken = ''''\<rparr>]
   \<and> searchLoop overshootServer () ''project = PROJ'' 2 [] '''' 0
     = Inr ([issue ''PROJ-1'', issue ''PROJ-2'', issue ''PROJ-3''], '''', 3)
   \<and> searchIssues overshootServer () ''project = PROJ'' 2
     = Inr \<lparr>SearchIssuesResult.Issues = [issue ''PROJ-1'', issue ''PROJ-2''],
            Total = 3, HasMore = True\<rparr>
   \<and> \<not> ('''' \<noteq> ''''
        \<or> int (length [issue ''PROJ-1'', issue ''PROJ-2'', issue ''PROJ-3'']) < 3)"
  by code_simp

section \<open>Dates\<close>




end
